theory Spec2Isabelle
  imports Main "HOL-Library.List_Lexorder" "HOL-Library.Product_Lexorder"
    "HOL-Library.Sublist" "HOL-Library.Word"
begin

section \<open>Strings, characters and exceptions\<close>

text \<open>
  A Python \<open>str\<close> is a sequence of Unicode code points, so it is modelled as a list of
  natural numbers (\<open>len\<close> is \<open>length\<close>, comparison is the lexicographic order on code
  points). \<open>str\<close> turns an ASCII literal of the source into such a list.
\<close>

type_synonym ustr = "nat list"

definition str :: "string \<Rightarrow> ustr" where
  "str s = map of_char s"

text \<open>The exceptions of the source that the model can raise.\<close>

datatype exn = KeyError | UnicodeDecodeError | ValueError | EpubException

text \<open>
  \<open>str.isspace\<close> of one code point; the regular expression class \<open>\s\<close>, \<open>str.strip()\<close>
  and \<open>str.split()\<close> all use it.
\<close>

definition isspace :: "nat \<Rightarrow> bool" where
  "isspace c = ((9 \<le> c \<and> c \<le> 13) \<or> (28 \<le> c \<and> c \<le> 32) \<or> c = 133 \<or> c = 160
     \<or> c = 5760 \<or> (8192 \<le> c \<and> c \<le> 8202) \<or> c = 8232 \<or> c = 8233 \<or> c = 8239
     \<or> c = 8287 \<or> c = 12288)"

text \<open>\<open>str.lower\<close> on a code point below 256: A-Z and the capital letters of Latin-1.\<close>

definition lower_latin1 :: "nat \<Rightarrow> nat" where
  "lower_latin1 c =
     (if (65 \<le> c \<and> c \<le> 90) \<or> (192 \<le> c \<and> c \<le> 222 \<and> c \<noteq> 215) then c + 32 else c)"


text \<open>
  What the program takes from its libraries and its surroundings and what is not part
  of the repository: \<open>lower_wide\<close> is \<open>str.lower\<close> on a string that holds a code point
  from 256 on, \<open>charref\<close> is the substitution of character references that
  \<open>html.unescape\<close> performs on a string that holds an ampersand, \<open>max_str_digits\<close> is
  the interpreter's limit on the digits of a decimal integer conversion
  (\<open>sys.get_int_max_str_digits()\<close>, 4300 by default, 0 for none), \<open>isalnum_wide\<close> is
  \<open>str.isalnum\<close> on a code point from 128 on, \<open>parser\<close> is
  \<open>BeautifulSoup(content, "html.parser")\<close>, \<open>read_epub\<close> is \<open>epub.read_epub\<close> followed
  by listing the items of the book, and \<open>now\<close> is the formatted time stamp.

  An item of the book is modelled by what the program can ask of it: its type, its
  name, and the bytes that the call \<open>item.get_content()\<close> returns. For a document part
  these are not the bytes stored in the container (\<open>stored_content\<close>, which the program
  never reads): the library parses the stored part and returns a document that it
  builds anew, with an XML declaration, a head of its own and the child elements of
  the part's body, serialised in UTF-8.
\<close>

datatype node = Tag ustr "node list" | NavigableString ustr | Comment ustr

datatype item_type = ITEM_UNKNOWN | ITEM_IMAGE | ITEM_STYLE | ITEM_SCRIPT | ITEM_NAVIGATION
  | ITEM_DOCUMENT | ITEM_COVER

record item =
  get_type :: item_type
  get_name :: ustr
  stored_content :: "8 word list"
  get_content :: "8 word list"

record env =
  lower_wide :: "ustr \<Rightarrow> ustr"
  charref :: "ustr \<Rightarrow> ustr"
  max_str_digits :: nat
  isalnum_wide :: "nat \<Rightarrow> bool"
  parser :: "ustr \<Rightarrow> node list"
  read_epub :: "ustr \<Rightarrow> exn + item list"
  now :: ustr

definition lower :: "env \<Rightarrow> ustr \<Rightarrow> ustr" where
  "lower E s = (if list_all (\<lambda>c. c < 256) s then map lower_latin1 s else lower_wide E s)"

text \<open>
  \<open>html.unescape\<close> returns a string without ampersand as it is. Otherwise it replaces
  every match of its pattern, and each match starts at an ampersand and holds no
  other. For a decimal reference, an ampersand and \<open>#\<close> followed by digits, the
  replacement calls \<open>int\<close> on all the digits that follow, which raises \<open>ValueError\<close>
  when they are more than the interpreter's limit (and more than 640, below which the
  limit is not applied). \<open>long_reference n s\<close> says that \<open>s\<close> holds a decimal reference
  of more than \<open>n\<close> digits.
\<close>

definition digit :: "nat \<Rightarrow> bool" where
  "digit c = (48 \<le> c \<and> c \<le> 57)"

fun long_reference :: "nat \<Rightarrow> ustr \<Rightarrow> bool" where
  "long_reference n [] = False"
| "long_reference n (c # cs) =
     ((c = 38 \<and> (case cs of [] \<Rightarrow> False
                | d # ds \<Rightarrow> d = 35 \<and> n < length (takeWhile digit ds)))
      \<or> long_reference n cs)"

definition unescape :: "env \<Rightarrow> ustr \<Rightarrow> exn + ustr" where
  "unescape E s =
     (if 38 \<notin> set s then Inr s
      else if 0 < max_str_digits E \<and> long_reference (max (max_str_digits E) 640) s
        then Inl ValueError
      else Inr (charref E s))"

section \<open>Dictionaries\<close>

text \<open>
  A \<open>dict\<close> is an association list in insertion order: assigning to a key that is
  present keeps its place, assigning to a new key appends it.
\<close>

fun dict_lookup :: "('k \<times> 'v) list \<Rightarrow> 'k \<Rightarrow> 'v option" where
  "dict_lookup [] k = None"
| "dict_lookup ((k', v) # d) k = (if k' = k then Some v else dict_lookup d k)"

text \<open>\<open>d[k]\<close>, which raises \<open>KeyError\<close> on a missing key.\<close>

definition subscript :: "('k \<times> 'v) list \<Rightarrow> 'k \<Rightarrow> exn + 'v" where
  "subscript d k = (case dict_lookup d k of None \<Rightarrow> Inl KeyError | Some v \<Rightarrow> Inr v)"

text \<open>\<open>d.get(k, default)\<close>.\<close>

definition dict_get :: "('k \<times> 'v) list \<Rightarrow> 'k \<Rightarrow> 'v \<Rightarrow> 'v" where
  "dict_get d k dflt = (case dict_lookup d k of None \<Rightarrow> dflt | Some v \<Rightarrow> v)"

text \<open>\<open>d[k] = v\<close>.\<close>

fun dict_set :: "('k \<times> 'v) list \<Rightarrow> 'k \<Rightarrow> 'v \<Rightarrow> ('k \<times> 'v) list" where
  "dict_set [] k v = [(k, v)]"
| "dict_set ((k', v') # d) k v = (if k' = k then (k, v) # d else (k', v') # dict_set d k v)"

definition dict_keys :: "('k \<times> 'v) list \<Rightarrow> 'k list" where
  "dict_keys d = map fst d"

definition dict_values :: "('k \<times> 'v) list \<Rightarrow> 'v list" where
  "dict_values d = map snd d"

text \<open>\<open>Counter.update(mapping)\<close>: the counts of the mapping are added.\<close>

definition counter_update :: "('k \<times> int) list \<Rightarrow> ('k \<times> int) list \<Rightarrow> ('k \<times> int) list" where
  "counter_update c m = fold (\<lambda>(k, n) c. dict_set c k (dict_get c k 0 + n)) m c"

text \<open>\<open>Counter(iterable)\<close>: every element counts once.\<close>

definition Counter :: "'k list \<Rightarrow> ('k \<times> int) list" where
  "Counter xs = fold (\<lambda>k c. dict_set c k (dict_get c k 0 + 1)) xs []"

text \<open>
  A \<open>set\<close> is a list without repetition; \<open>set_update\<close> is \<open>set.update(iterable)\<close>.
\<close>

definition set_update :: "'a list \<Rightarrow> 'a list \<Rightarrow> 'a list" where
  "set_update s xs = fold (\<lambda>x s. if x \<in> set s then s else s @ [x]) xs s"

section \<open>The compound table and the text normaliser\<close>

definition PORTUGUESE_COMPOUNDS :: "(ustr \<times> ustr) list" where
  "PORTUGUESE_COMPOUNDS =
    [(str ''o que'', str ''o_que''),
     (str ''por que'', str ''por_que''),
     (str ''para que'', str ''para_que''),
     (str ''de acordo com'', str ''de_acordo_com''),
     (str ''ao lado de'', str ''ao_lado_de''),
     (str ''em frente'', str ''em_frente''),
     (str ''em frente a'', str ''em_frente_a''),
     (str ''dentro de'', str ''dentro_de''),
     (str ''fora de'', str ''fora_de''),
     (str ''em cima de'', str ''em_cima_de''),
     (str ''em baixo de'', str ''em_baixo_de''),
     (str ''a partir de'', str ''a_partir_de''),
     (str ''at'' @ [233] @ str '' logo'', str ''at'' @ [233] @ str ''_logo''),
     (str ''com certeza'', str ''com_certeza''),
     (str ''mais ou menos'', str ''mais_ou_menos''),
     (str ''todo mundo'', str ''todo_mundo''),
     (str ''todo dia'', str ''todo_dia''),
     (str ''boa noite'', str ''boa_noite''),
     (str ''bom dia'', str ''bom_dia''),
     (str ''boa tarde'', str ''boa_tarde''),
     (str ''de vez em quando'', str ''de_vez_em_quando''),
     (str ''de repente'', str ''de_repente''),
     ([224] @ str ''s vezes'', [224] @ str ''s_vezes''),
     (str ''por isso'', str ''por_isso''),
     (str ''ou seja'', str ''ou_seja''),
     (str ''pelo menos'', str ''pelo_menos''),
     (str ''assim que'', str ''assim_que''),
     (str ''mesmo que'', str ''mesmo_que''),
     (str ''antes de'', str ''antes_de''),
     (str ''depois de'', str ''depois_de''),
     (str ''tem que'', str ''tem_que''),
     (str ''pode ser'', str ''pode_ser''),
     (str ''quer dizer'', str ''quer_dizer''),
     (str ''ainda n'' @ [227] @ str ''o'', str ''ainda_n'' @ [227] @ str ''o''),
     (str ''j'' @ [225] @ str '' n'' @ [227] @ str ''o'', str ''j'' @ [225] @ str ''_n'' @ [227] @ str ''o''),
     (str ''nem mesmo'', str ''nem_mesmo'')]"

text \<open>
  \<open>s.replace(old, new)\<close>: a scan from the left; a match is replaced and its characters
  are consumed. With an empty \<open>old\<close>, \<open>new\<close> is put before every character and at
  the end.
\<close>

function str_replace :: "ustr \<Rightarrow> ustr \<Rightarrow> ustr \<Rightarrow> ustr" where
  "str_replace old new [] = (if old = [] then new else [])"
| "str_replace old new (c # cs) =
     (if old = [] then new @ c # str_replace old new cs
      else if prefix old (c # cs) then new @ str_replace old new (drop (length old) (c # cs))
      else c # str_replace old new cs)"
  by pat_completeness auto
termination
  by (relation "measure (\<lambda>(old, new, s). length s)") auto

text \<open>
  \<open>sorted(PORTUGUESE_COMPOUNDS.keys(), key=len, reverse=True)\<close>: a stable sort, so
  phrases of one length keep the order of the table.
\<close>

definition sorted_compounds :: "ustr list" where
  "sorted_compounds = sort_key (\<lambda>k. - int (length k)) (dict_keys PORTUGUESE_COMPOUNDS)"

fun replace_loop :: "ustr list \<Rightarrow> ustr \<Rightarrow> exn + ustr" where
  "replace_loop [] processed_text = Inr processed_text"
| "replace_loop (compound # rest) processed_text =
     (case subscript PORTUGUESE_COMPOUNDS compound of
        Inl e \<Rightarrow> Inl e
      | Inr placeholder \<Rightarrow> replace_loop rest (str_replace compound placeholder processed_text))"

definition replace_compounds :: "env \<Rightarrow> ustr \<Rightarrow> exn + ustr" where
  "replace_compounds E text = replace_loop sorted_compounds (lower E text)"

text \<open>
  The characters that the class \<open>[^a-z...\s_]\<close> does not match: a to z, the 24 accented
  letters listed in the source, whitespace and the underscore.
\<close>

definition accented :: "nat list" where
  "accented = [225, 233, 237, 243, 250, 226, 234, 238, 244, 251, 227, 245,
               224, 232, 236, 242, 249, 228, 235, 239, 246, 252, 231, 241]"

definition keep_char :: "nat \<Rightarrow> bool" where
  "keep_char c = ((97 \<le> c \<and> c \<le> 122) \<or> c \<in> set accented \<or> isspace c \<or> c = 95)"

text \<open>\<open>re.sub(r"[^a-z...\s_]", " ", text)\<close>.\<close>

definition remove_special :: "ustr \<Rightarrow> ustr" where
  "remove_special text = map (\<lambda>c. if keep_char c then c else 32) text"

text \<open>\<open>re.sub(r"\s+", " ", text)\<close>: every maximal run of whitespace becomes one space.\<close>

function collapse_ws :: "ustr \<Rightarrow> ustr" where
  "collapse_ws [] = []"
| "collapse_ws (c # cs) =
     (if isspace c then 32 # collapse_ws (dropWhile isspace cs) else c # collapse_ws cs)"
  by pat_completeness auto
termination
  by (relation "measure length") (auto simp: less_Suc_eq_le length_dropWhile_le)

text \<open>\<open>text.strip()\<close>.\<close>

definition strip :: "ustr \<Rightarrow> ustr" where
  "strip text = rev (dropWhile isspace (rev (dropWhile isspace text)))"

definition clean_text :: "env \<Rightarrow> ustr \<Rightarrow> exn + ustr" where
  "clean_text E text =
     (case unescape E text of
        Inl e \<Rightarrow> Inl e
      | Inr unescaped \<Rightarrow>
          (case replace_compounds E (lower E unescaped) of
             Inl e \<Rightarrow> Inl e
           | Inr folded \<Rightarrow> Inr (strip (collapse_ws (remove_special folded)))))"

text \<open>\<open>text.split()\<close>: the maximal runs of characters that are not whitespace.\<close>

function split :: "ustr \<Rightarrow> ustr list" where
  "split [] = []"
| "split (c # cs) =
     (if isspace c then split cs
      else (c # takeWhile (\<lambda>x. \<not> isspace x) cs) # split (dropWhile (\<lambda>x. \<not> isspace x) cs))"
  by pat_completeness auto
termination
  by (relation "measure length") (auto simp: less_Suc_eq_le length_dropWhile_le)

definition get_word_frequencies :: "ustr \<Rightarrow> (ustr \<times> int) list" where
  "get_word_frequencies text = Counter (split text)"

section \<open>The document extractor\<close>

text \<open>
  \<open>bytes.decode("utf-8")\<close>: the well-formed byte sequences of UTF-8 (no overlong form,
  no surrogate, nothing above U+10FFFF); anything else raises \<open>UnicodeDecodeError\<close>.
\<close>

definition emit :: "nat \<Rightarrow> exn + ustr \<Rightarrow> exn + ustr" where
  "emit c r = (case r of Inl e \<Rightarrow> Inl e | Inr s \<Rightarrow> Inr (c # s))"

text \<open>
  The decoder reads one byte at a time: \<open>need\<close> counts the continuation bytes still
  awaited, \<open>acc\<close> holds the bits read so far, and \<open>lo\<close> and \<open>hi\<close> bound the next byte.
\<close>

primrec utf8 :: "nat \<Rightarrow> nat \<Rightarrow> nat \<Rightarrow> nat \<Rightarrow> nat list \<Rightarrow> exn + ustr" where
  "utf8 need acc lo hi [] = (if need = 0 then Inr [] else Inl UnicodeDecodeError)"
| "utf8 need acc lo hi (b # bs) =
     (if need = 0 then
        (if b < 128 then emit b (utf8 0 0 128 191 bs)
         else if 194 \<le> b \<and> b \<le> 223 then utf8 1 (b - 192) 128 191 bs
         else if 224 \<le> b \<and> b \<le> 239 then
           utf8 2 (b - 224) (if b = 224 then 160 else 128) (if b = 237 then 159 else 191) bs
         else if 240 \<le> b \<and> b \<le> 244 then
           utf8 3 (b - 240) (if b = 240 then 144 else 128) (if b = 244 then 143 else 191) bs
         else Inl UnicodeDecodeError)
      else if lo \<le> b \<and> b \<le> hi then
        (if need = 1 then emit (acc * 64 + (b - 128)) (utf8 0 0 128 191 bs)
         else utf8 (need - 1) (acc * 64 + (b - 128)) 128 191 bs)
      else Inl UnicodeDecodeError)"

definition decode :: "8 word list \<Rightarrow> exn + ustr" where
  "decode bs = utf8 0 0 128 191 (map unat bs)"

text \<open>
  The parse tree of Beautiful Soup: tags with their children, the strings that count as
  text (\<open>NavigableString\<close>) and the strings that \<open>get_text\<close> leaves out (\<open>Comment\<close>:
  comments, declarations, doctypes). \<open>find\<close> returns the first tag, in document order,
  whose name is in the list; \<open>get_text\<close> concatenates the text in document order;
  \<open>decompose\<close> removes every tag whose name is in the list, with all it contains.
\<close>

fun find :: "ustr list \<Rightarrow> node list \<Rightarrow> node option" where
  "find names [] = None"
| "find names (Tag n children # rest) =
     (if n \<in> set names then Some (Tag n children)
      else (case find names children of Some t \<Rightarrow> Some t | None \<Rightarrow> find names rest))"
| "find names (NavigableString s # rest) = find names rest"
| "find names (Comment s # rest) = find names rest"

fun get_text :: "node list \<Rightarrow> ustr" where
  "get_text [] = []"
| "get_text (Tag n children # rest) = get_text children @ get_text rest"
| "get_text (NavigableString s # rest) = s @ get_text rest"
| "get_text (Comment s # rest) = get_text rest"

fun decompose :: "ustr list \<Rightarrow> node list \<Rightarrow> node list" where
  "decompose names [] = []"
| "decompose names (Tag n children # rest) =
     (if n \<in> set names then decompose names rest
      else Tag n (decompose names children) # decompose names rest)"
| "decompose names (NavigableString s # rest) = NavigableString s # decompose names rest"
| "decompose names (Comment s # rest) = Comment s # decompose names rest"

definition html_to_text :: "env \<Rightarrow> ustr \<Rightarrow> ustr" where
  "html_to_text E content =
     (let soup = parser E content;
          soup = decompose [str ''script'', str ''style''] soup
      in get_text soup)"

text \<open>
  The choice of the chapter title in the loop of \<open>analyze_epub\<close>. A tag object is true
  whatever it contains, so \<open>if title:\<close> and \<open>if heading\<close> only ask whether a tag was
  found.
\<close>

definition chapter_title_of :: "node list \<Rightarrow> item \<Rightarrow> ustr" where
  "chapter_title_of soup item =
     (case find [str ''title''] soup of
        Some title \<Rightarrow> get_text [title]
      | None \<Rightarrow>
          (case find [str ''h1'', str ''h2''] soup of
             Some heading \<Rightarrow> get_text [heading]
           | None \<Rightarrow> get_name item))"

type_synonym analysis = "ustr \<times> (ustr \<times> int) list"

text \<open>The body of the \<open>for\<close> loop of \<open>analyze_epub\<close>; an exception leaves the loop.\<close>

fun analyze_items :: "env \<Rightarrow> item list \<Rightarrow> analysis list \<Rightarrow> exn + analysis list" where
  "analyze_items E [] chapter_analyses = Inr chapter_analyses"
| "analyze_items E (item # items) chapter_analyses =
     (case decode (get_content item) of
        Inl e \<Rightarrow> Inl e
      | Inr content \<Rightarrow>
          (let soup = parser E content;
               chapter_title = chapter_title_of soup item;
               text = html_to_text E content
           in case clean_text E text of
                Inl e \<Rightarrow> Inl e
              | Inr cleaned_text \<Rightarrow>
                  (let frequencies = get_word_frequencies cleaned_text
                   in analyze_items E items (chapter_analyses @ [(chapter_title, frequencies)]))))"

definition get_items_of_type :: "item list \<Rightarrow> item_type \<Rightarrow> item list" where
  "get_items_of_type book t = filter (\<lambda>item. get_type item = t) book"

text \<open>
  \<open>analyze_epub\<close>: one \<open>try\<close> around the whole body, whose handler returns the empty
  list for every exception.
\<close>

definition analyze_epub :: "env \<Rightarrow> ustr \<Rightarrow> analysis list" where
  "analyze_epub E epub_path =
     (case read_epub E epub_path of
        Inl e \<Rightarrow> []
      | Inr book \<Rightarrow>
          (case analyze_items E (get_items_of_type book ITEM_DOCUMENT) [] of
             Inl e \<Rightarrow> []
           | Inr chapter_analyses \<Rightarrow> chapter_analyses))"

section \<open>The report exporter\<close>

text \<open>
  A CSV file is the list of the rows written to it, a row a list of cells. The files
  that a run writes are listed in the order of the writes; a later write to a path
  replaces the file, so \<open>file_at\<close> reads the last one.
\<close>

datatype cell = S ustr | N int

type_synonym csv_file = "ustr \<times> cell list list"

definition file_at :: "csv_file list \<Rightarrow> ustr \<Rightarrow> cell list list option" where
  "file_at files path = dict_lookup (rev files) path"

text \<open>The class \<open>\w\<close>: letters, digits and the underscore.\<close>

definition word_char :: "env \<Rightarrow> nat \<Rightarrow> bool" where
  "word_char E c = ((48 \<le> c \<and> c \<le> 57) \<or> (65 \<le> c \<and> c \<le> 90) \<or> (97 \<le> c \<and> c \<le> 122) \<or> c = 95
     \<or> (128 \<le> c \<and> isalnum_wide E c))"

text \<open>\<open>re.sub(r"[^\w\s-]", "", chapter_title).replace(" ", "_")\<close>.\<close>

definition clean_title :: "env \<Rightarrow> ustr \<Rightarrow> ustr" where
  "clean_title E chapter_title =
     map (\<lambda>c. if c = 32 then 95 else c)
       (filter (\<lambda>c. word_char E c \<or> isspace c \<or> c = 45) chapter_title)"

text \<open>\<open>os.path.join\<close> of two components.\<close>

definition path_join :: "ustr \<Rightarrow> ustr \<Rightarrow> ustr" where
  "path_join a b =
     (if b \<noteq> [] \<and> hd b = 47 then b
      else if a = [] \<or> last a = 47 then a @ b
      else a @ [47] @ b)"

definition output_dir :: "env \<Rightarrow> ustr" where
  "output_dir E = str ''word_frequency_analysis_'' @ now E"

definition chapter_filename :: "env \<Rightarrow> ustr \<Rightarrow> ustr" where
  "chapter_filename E chapter_title =
     path_join (output_dir E) (clean_title E chapter_title @ str ''_frequencies.csv'')"

definition filtered_frequencies :: "int \<Rightarrow> (ustr \<times> int) list \<Rightarrow> (ustr \<times> int) list" where
  "filtered_frequencies min_frequency frequencies =
     filter (\<lambda>(word, freq). freq \<ge> min_frequency) frequencies"

text \<open>
  \<open>sorted\<close> is stable, as \<open>sort_key\<close> is; the keys are compared as Python compares
  tuples and strings.
\<close>

definition sorted_words :: "ustr \<Rightarrow> (ustr \<times> int) list \<Rightarrow> (ustr \<times> int) list" where
  "sorted_words sort_by filtered =
     (if sort_by = str ''frequency'' then sort_key (\<lambda>x. (- snd x, fst x)) filtered
      else sort_key (\<lambda>x. fst x) filtered)"

definition chapter_file :: "env \<Rightarrow> int \<Rightarrow> ustr \<Rightarrow> analysis \<Rightarrow> csv_file" where
  "chapter_file E min_frequency sort_by ch =
     (case ch of (chapter_title, frequencies) \<Rightarrow>
        (chapter_filename E chapter_title,
         [S (str ''Word''), S (str ''Frequency'')] #
         map (\<lambda>(word, freq). [S word, N freq])
           (sorted_words sort_by (filtered_frequencies min_frequency frequencies))))"

text \<open>The first pass over the chapters: the set of words and the dictionary by title.\<close>

fun first_pass :: "int \<Rightarrow> analysis list \<Rightarrow> ustr list \<times> (ustr \<times> (ustr \<times> int) list) list
    \<Rightarrow> ustr list \<times> (ustr \<times> (ustr \<times> int) list) list" where
  "first_pass min_frequency [] acc = acc"
| "first_pass min_frequency ((chapter_title, frequencies) # rest) (all_words, chapter_word_counts) =
     (let filtered = filtered_frequencies min_frequency frequencies
      in first_pass min_frequency rest
           (set_update all_words (dict_keys filtered), dict_set chapter_word_counts chapter_title filtered))"

definition total_frequencies :: "(ustr \<times> (ustr \<times> int) list) list \<Rightarrow> (ustr \<times> int) list" where
  "total_frequencies chapter_word_counts =
     fold (\<lambda>frequencies tot. counter_update tot frequencies) (dict_values chapter_word_counts) []"

definition sort_all_words :: "ustr \<Rightarrow> (ustr \<times> (ustr \<times> int) list) list \<Rightarrow> ustr list \<Rightarrow> ustr list" where
  "sort_all_words sort_by chapter_word_counts all_words =
     (if sort_by = str ''frequency'' then
        sort_key (\<lambda>x. (- dict_get (total_frequencies chapter_word_counts) x 0, x)) all_words
      else sort_key (\<lambda>x. x) all_words)"

text \<open>The inner loop of the combined file: one cell per chapter of the list, then the total.\<close>

fun row_loop :: "(ustr \<times> (ustr \<times> int) list) list \<Rightarrow> analysis list \<Rightarrow> ustr \<Rightarrow> cell list \<Rightarrow> int
    \<Rightarrow> exn + cell list" where
  "row_loop chapter_word_counts [] word row tot = Inr (row @ [N tot])"
| "row_loop chapter_word_counts ((chapter_title, uu) # rest) word row tot =
     (case subscript chapter_word_counts chapter_title of
        Inl e \<Rightarrow> Inl e
      | Inr counts \<Rightarrow>
          (let freq = dict_get counts word 0
           in row_loop chapter_word_counts rest word (row @ [N freq]) (tot + freq)))"

fun rows_loop :: "(ustr \<times> (ustr \<times> int) list) list \<Rightarrow> analysis list \<Rightarrow> ustr list
    \<Rightarrow> exn + cell list list" where
  "rows_loop chapter_word_counts chapter_analyses [] = Inr []"
| "rows_loop chapter_word_counts chapter_analyses (word # rest) =
     (case row_loop chapter_word_counts chapter_analyses word [S word] 0 of
        Inl e \<Rightarrow> Inl e
      | Inr row \<Rightarrow>
          (case rows_loop chapter_word_counts chapter_analyses rest of
             Inl e \<Rightarrow> Inl e
           | Inr rows \<Rightarrow> Inr (row # rows)))"

definition combined_file :: "env \<Rightarrow> int \<Rightarrow> ustr \<Rightarrow> analysis list \<Rightarrow> exn + csv_file" where
  "combined_file E min_frequency sort_by chapter_analyses =
     (let combined_filename = path_join (output_dir E) (str ''combined_analysis.csv'');
          (all_words, chapter_word_counts) = first_pass min_frequency chapter_analyses ([], []);
          all_words = sort_all_words sort_by chapter_word_counts all_words;
          header = [S (str ''Word'')] @ map (\<lambda>(title, uu). S title) chapter_analyses @ [S (str ''Total'')]
      in case rows_loop chapter_word_counts chapter_analyses all_words of
           Inl e \<Rightarrow> Inl e
         | Inr rows \<Rightarrow> Inr (combined_filename, header # rows))"

text \<open>
  \<open>export_to_csv\<close> returns the files it wrote, in the order of the writes: one per
  chapter of the list, then the combined file. The file system is taken to accept every
  write: an \<open>OSError\<close> of \<open>os.makedirs\<close> or \<open>open\<close> (a file name longer than the
  system allows, a full disk, a missing permission), which the program lets through,
  is not modelled.
\<close>

definition export_to_csv :: "env \<Rightarrow> analysis list \<Rightarrow> int \<Rightarrow> ustr \<Rightarrow> exn + csv_file list" where
  "export_to_csv E chapter_analyses min_frequency sort_by =
     (let chapter_files = map (chapter_file E min_frequency sort_by) chapter_analyses
      in case combined_file E min_frequency sort_by chapter_analyses of
           Inl e \<Rightarrow> Inl e
         | Inr combined \<Rightarrow> Inr (chapter_files @ [combined]))"

text \<open>
  \<open>print_chapter_analysis\<close> and the script: what is printed is left out, the files
  written are kept.
\<close>

definition print_chapter_analysis :: "env \<Rightarrow> analysis list \<Rightarrow> ustr \<Rightarrow> int \<Rightarrow> ustr \<Rightarrow> bool
    \<Rightarrow> exn + csv_file list" where
  "print_chapter_analysis E chapter_analyses output_format min_frequency sort_by export_csv =
     (if export_csv then export_to_csv E chapter_analyses min_frequency sort_by else Inr [])"

definition main :: "env \<Rightarrow> ustr \<Rightarrow> exn + csv_file list" where
  "main E epub_path =
     (let chapter_analyses = analyze_epub E epub_path
      in print_chapter_analysis E chapter_analyses (str ''text'') 1 (str ''frequency'') True)"

section \<open>Auxiliary notions for the proofs\<close>

text \<open>
  A string is \<open>collapsed\<close> when its only whitespace is the space character and no two
  whitespace characters are adjacent; a \<open>token_char\<close> is a character that the
  normaliser keeps and that is not whitespace; \<open>compound_pairs\<close> lists the phrases in
  the order of the replacement loop, each with its placeholder.
\<close>

fun collapsed :: "ustr \<Rightarrow> bool" where
  "collapsed [] = True"
| "collapsed [c] = (isspace c \<longrightarrow> c = 32)"
| "collapsed (c # d # cs) = ((isspace c \<longrightarrow> c = 32 \<and> \<not> isspace d) \<and> collapsed (d # cs))"

definition token_char :: "nat \<Rightarrow> bool" where
  "token_char c = (keep_char c \<and> \<not> isspace c)"

definition compound_pairs :: "(ustr \<times> ustr) list" where
  "compound_pairs = map (\<lambda>k. (k, dict_get PORTUGUESE_COMPOUNDS k [])) sorted_compounds"

section \<open>Concrete inputs\<close>

text \<open>
  An environment for running the program on concrete inputs: the library parameters
  that such inputs never reach are the identity, the parser and the book are given.
\<close>

definition scenario_env :: "(ustr \<Rightarrow> node list) \<Rightarrow> (exn + item list) \<Rightarrow> env" where
  "scenario_env p book =
     \<lparr>lower_wide = (\<lambda>s. s), charref = (\<lambda>s. s), max_str_digits = 4300,
      isalnum_wide = (\<lambda>c. False), parser = p, read_epub = (\<lambda>path. book),
      now = str ''20240101_120000''\<rparr>"

definition plain_env :: env where
  "plain_env = scenario_env (\<lambda>s. []) (Inl EpubException)"




text \<open>
  The combined file in closed form: \<open>column_count\<close> is the count that the column of a
  title shows for a word, read from the last chapter of the list that carries the
  title; \<open>combined_row\<close> is the row of a word.
\<close>

definition column_count :: "int \<Rightarrow> analysis list \<Rightarrow> ustr \<Rightarrow> ustr \<Rightarrow> int" where
  "column_count min_frequency chapter_analyses chapter_title word =
     (case dict_lookup (rev chapter_analyses) chapter_title of
        Some frequencies \<Rightarrow> dict_get (filtered_frequencies min_frequency frequencies) word 0
      | None \<Rightarrow> 0)"

definition combined_path :: "env \<Rightarrow> ustr" where
  "combined_path E = path_join (output_dir E) (str ''combined_analysis.csv'')"

definition combined_header :: "analysis list \<Rightarrow> cell list" where
  "combined_header chapter_analyses =
     [S (str ''Word'')] @ map (\<lambda>c. S (fst c)) chapter_analyses @ [S (str ''Total'')]"

definition combined_row :: "int \<Rightarrow> analysis list \<Rightarrow> ustr \<Rightarrow> cell list" where
  "combined_row m cs word =
     [S word] @ map (\<lambda>c. N (column_count m cs (fst c) word)) cs
       @ [N (sum_list (map (\<lambda>c. column_count m cs (fst c) word) cs))]"

text \<open>Two chapters with different titles, and two chapters with one title.\<close>

definition two_chapters :: "analysis list" where
  "two_chapters = [(str ''A'', [(str ''x'', 1), (str ''y'', 1)]), (str ''B'', [(str ''x'', 2)])]"

definition same_title :: "analysis list" where
  "same_title = [(str ''A'', [(str ''x'', 1)]), (str ''A'', [(str ''x'', 2)])]"

section \<open>Whitespace: collapsing and stripping\<close>

lemma isspace_32: "isspace 32"
  by (simp add: isspace_def)

lemma collapsed_Cons: "collapsed (c # cs) \<Longrightarrow> collapsed cs"
  by (cases cs) auto

lemma collapsed_append_right: "collapsed (xs @ ys) \<Longrightarrow> collapsed ys"
  by (induction xs) (auto dest: collapsed_Cons)

lemma collapsed_append_left: "collapsed (xs @ ys) \<Longrightarrow> collapsed xs"
proof (induction xs rule: collapsed.induct)
  case 1 then show ?case by simp
next
  case (2 c) then show ?case by (cases ys) auto
next
  case (3 c d cs) then show ?case by auto
qed

lemma collapsed_collapse_ws: "collapsed (collapse_ws s)"
proof (induction s rule: collapse_ws.induct)
  case 1 then show ?case by simp
next
  case (2 c cs)
  show ?case
  proof (cases "isspace c")
    case True
    have h: "collapsed (collapse_ws (dropWhile isspace cs))" using 2 True by simp
    have e: "collapse_ws (c # cs) = 32 # collapse_ws (dropWhile isspace cs)" using True by simp
    show ?thesis
    proof (cases "dropWhile isspace cs")
      case Nil
      have "collapsed [32]" by simp
      then show ?thesis unfolding e Nil by (simp only: collapse_ws.simps)
    next
      case (Cons d ds)
      then have "\<not> isspace d" using hd_dropWhile[of isspace cs] by auto
      then show ?thesis using h unfolding e Cons by simp
    qed
  next
    case False
    have h: "collapsed (collapse_ws cs)" using 2 False by simp
    show ?thesis using False h by (cases "collapse_ws cs") auto
  qed
qed

lemma collapse_ws_collapsed: "collapsed s \<Longrightarrow> collapse_ws s = s"
proof (induction s rule: collapsed.induct)
  case 1 then show ?case by simp
next
  case (2 c) then show ?case by auto
next
  case (3 c d cs) then show ?case by auto
qed

lemma strip_decomp: "\<exists>pre post. s = pre @ strip s @ post"
proof -
  let ?t = "dropWhile isspace s"
  have a: "s = takeWhile isspace s @ ?t" by simp
  have "rev (takeWhile isspace (rev ?t) @ dropWhile isspace (rev ?t)) = rev (rev ?t)"
    by (simp only: takeWhile_dropWhile_id)
  then have "rev (dropWhile isspace (rev ?t)) @ rev (takeWhile isspace (rev ?t)) = ?t"
    by (simp only: rev_append rev_rev_ident)
  then have b: "?t = strip s @ rev (takeWhile isspace (rev ?t))" by (simp only: strip_def)
  from a b have "s = takeWhile isspace s @ strip s @ rev (takeWhile isspace (rev ?t))" by simp
  then show ?thesis by blast
qed

lemma collapsed_strip: "collapsed s \<Longrightarrow> collapsed (strip s)"
proof -
  assume c: "collapsed s"
  obtain pre post where "s = pre @ strip s @ post" using strip_decomp by blast
  then have "collapsed (pre @ strip s @ post)" using c by simp
  then show ?thesis using collapsed_append_right collapsed_append_left by blast
qed

lemma set_strip: "set (strip s) \<subseteq> set s"
proof -
  obtain pre post where "s = pre @ strip s @ post" using strip_decomp by blast
  then have "set s = set pre \<union> set (strip s) \<union> set post" by (metis set_append sup_assoc)
  then show ?thesis by blast
qed

lemma last_dropWhile: "dropWhile P xs \<noteq> [] \<Longrightarrow> last (dropWhile P xs) = last xs"
  by (induction xs) (auto split: if_splits)

lemma strip_ends: "strip s = [] \<or> (\<not> isspace (hd (strip s)) \<and> \<not> isspace (last (strip s)))"
proof (cases "strip s = []")
  case True then show ?thesis by simp
next
  case False
  let ?t = "dropWhile isspace s"
  let ?u = "dropWhile isspace (rev ?t)"
  have u: "?u \<noteq> []" using False by (simp add: strip_def)
  have t: "?t \<noteq> []"
  proof
    assume "?t = []"
    then have "?u = []" by (simp only: rev.simps dropWhile.simps)
    with u show False by simp
  qed
  have "\<not> isspace (hd ?u)" using u hd_dropWhile by blast
  then have l: "\<not> isspace (last (strip s))" using u by (simp add: strip_def last_rev)
  have "last ?u = last (rev ?t)" using u by (rule last_dropWhile)
  then have "hd (strip s) = hd ?t" using u t by (simp add: strip_def hd_rev last_rev)
  moreover have "\<not> isspace (hd ?t)" using t hd_dropWhile by blast
  ultimately show ?thesis using l by simp
qed

lemma strip_fixed: "s = [] \<or> (\<not> isspace (hd s) \<and> \<not> isspace (last s)) \<Longrightarrow> strip s = s"
proof (cases s)
  case Nil then show ?thesis by (simp add: strip_def)
next
  case (Cons c cs)
  assume "s = [] \<or> (\<not> isspace (hd s) \<and> \<not> isspace (last s))"
  then have h: "\<not> isspace c" and l: "\<not> isspace (last s)" using Cons by auto
  have d: "dropWhile isspace s = s" using Cons h by simp
  have "rev s \<noteq> []" using Cons by simp
  then obtain r rs where r: "rev s = r # rs" by (cases "rev s") auto
  then have "r = last s" using hd_rev[of s] by simp
  then have "dropWhile isspace (r # rs) = r # rs" using l by simp
  then have "dropWhile isspace (rev s) = rev s" by (simp only: r)
  then show ?thesis using d by (simp add: strip_def)
qed

lemma strip_strip: "strip (strip s) = strip s"
  using strip_ends[of s] by (rule strip_fixed)

section \<open>The replacement loop never misses a key\<close>

lemma sorted_compounds_eq: "sorted_compounds =
    [str ''de vez em quando'',
     str ''de acordo com'',
     str ''mais ou menos'',
     str ''em frente a'',
     str ''em baixo de'',
     str ''a partir de'',
     str ''com certeza'',
     str ''ao lado de'',
     str ''em cima de'',
     str ''todo mundo'',
     str ''de repente'',
     str ''pelo menos'',
     str ''quer dizer'',
     str ''em frente'',
     str ''dentro de'',
     str ''boa noite'',
     str ''boa tarde'',
     str ''assim que'',
     str ''mesmo que'',
     str ''depois de'',
     str ''ainda n'' @ [227] @ str ''o'',
     str ''nem mesmo'',
     str ''para que'',
     str ''at'' @ [233] @ str '' logo'',
     str ''todo dia'',
     [224] @ str ''s vezes'',
     str ''por isso'',
     str ''antes de'',
     str ''pode ser'',
     str ''por que'',
     str ''fora de'',
     str ''bom dia'',
     str ''ou seja'',
     str ''tem que'',
     str ''j'' @ [225] @ str '' n'' @ [227] @ str ''o'',
     str ''o que'']"
  by (simp add: sorted_compounds_def PORTUGUESE_COMPOUNDS_def dict_keys_def str_def)
lemma compound_pairs_eq: "compound_pairs =
    [(str ''de vez em quando'', str ''de_vez_em_quando''),
     (str ''de acordo com'', str ''de_acordo_com''),
     (str ''mais ou menos'', str ''mais_ou_menos''),
     (str ''em frente a'', str ''em_frente_a''),
     (str ''em baixo de'', str ''em_baixo_de''),
     (str ''a partir de'', str ''a_partir_de''),
     (str ''com certeza'', str ''com_certeza''),
     (str ''ao lado de'', str ''ao_lado_de''),
     (str ''em cima de'', str ''em_cima_de''),
     (str ''todo mundo'', str ''todo_mundo''),
     (str ''de repente'', str ''de_repente''),
     (str ''pelo menos'', str ''pelo_menos''),
     (str ''quer dizer'', str ''quer_dizer''),
     (str ''em frente'', str ''em_frente''),
     (str ''dentro de'', str ''dentro_de''),
     (str ''boa noite'', str ''boa_noite''),
     (str ''boa tarde'', str ''boa_tarde''),
     (str ''assim que'', str ''assim_que''),
     (str ''mesmo que'', str ''mesmo_que''),
     (str ''depois de'', str ''depois_de''),
     (str ''ainda n'' @ [227] @ str ''o'', str ''ainda_n'' @ [227] @ str ''o''),
     (str ''nem mesmo'', str ''nem_mesmo''),
     (str ''para que'', str ''para_que''),
     (str ''at'' @ [233] @ str '' logo'', str ''at'' @ [233] @ str ''_logo''),
     (str ''todo dia'', str ''todo_dia''),
     ([224] @ str ''s vezes'', [224] @ str ''s_vezes''),
     (str ''por isso'', str ''por_isso''),
     (str ''antes de'', str ''antes_de''),
     (str ''pode ser'', str ''pode_ser''),
     (str ''por que'', str ''por_que''),
     (str ''fora de'', str ''fora_de''),
     (str ''bom dia'', str ''bom_dia''),
     (str ''ou seja'', str ''ou_seja''),
     (str ''tem que'', str ''tem_que''),
     (str ''j'' @ [225] @ str '' n'' @ [227] @ str ''o'', str ''j'' @ [225] @ str ''_n'' @ [227] @ str ''o''),
     (str ''o que'', str ''o_que'')]"
  unfolding compound_pairs_def sorted_compounds_eq
  by (simp add: PORTUGUESE_COMPOUNDS_def dict_get_def str_def)
lemma dict_lookup_keys: "(dict_lookup d k = None) = (k \<notin> set (dict_keys d))"
  by (induction d k rule: dict_lookup.induct) (auto simp: dict_keys_def)
lemma replace_loop_fold:
  "set ks \<subseteq> set (dict_keys PORTUGUESE_COMPOUNDS) \<Longrightarrow>
   replace_loop ks t = Inr (fold (\<lambda>(p, q). str_replace p q) (map (\<lambda>k. (k, dict_get PORTUGUESE_COMPOUNDS k [])) ks) t)"
proof (induction ks arbitrary: t)
  case Nil then show ?case by simp
next
  case (Cons k ks)
  then obtain q where q: "dict_lookup PORTUGUESE_COMPOUNDS k = Some q"
    using dict_lookup_keys[of PORTUGUESE_COMPOUNDS k] by auto
  with Cons show ?case by (simp add: subscript_def dict_get_def)
qed
lemma replace_compounds_fold:
  "replace_compounds E t = Inr (fold (\<lambda>(p, q). str_replace p q) compound_pairs (lower E t))"
  unfolding replace_compounds_def compound_pairs_def
  by (rule replace_loop_fold) (simp add: sorted_compounds_def)
lemma clean_text_eq:
  "clean_text E t =
     (case unescape E t of
        Inl e \<Rightarrow> Inl e
      | Inr u \<Rightarrow> Inr (strip (collapse_ws (remove_special
          (fold (\<lambda>(p, q). str_replace p q) compound_pairs (lower E (lower E u)))))))"
  by (simp add: clean_text_def replace_compounds_fold split: sum.splits)
lemma clean_text_unescaped:
  "unescape E t = Inr u \<Longrightarrow>
   clean_text E t = Inr (strip (collapse_ws (remove_special
     (fold (\<lambda>(p, q). str_replace p q) compound_pairs (lower E (lower E u))))))"
  by (simp add: clean_text_eq)
lemma unescape_plain: "38 \<notin> set t \<Longrightarrow> unescape E t = Inr t"
  by (simp add: unescape_def)
section \<open>The output of the normaliser\<close>

lemmas eval_simps = clean_text_eq compound_pairs_eq str_def plain_env_def scenario_env_def
  lower_def lower_latin1_def unescape_def remove_special_def keep_char_def accented_def
  isspace_def strip_def

lemma set_collapse_ws: "set (collapse_ws s) \<subseteq> insert 32 (set s)"
proof (induction s rule: collapse_ws.induct)
  case 1 then show ?case by simp
next
  case (2 c cs)
  have "set (dropWhile isspace cs) \<subseteq> set cs" by (auto dest: set_dropWhileD)
  with 2 show ?case by (cases "isspace c") auto
qed


lemma collapsed_space: "collapsed s \<Longrightarrow> c \<in> set s \<Longrightarrow> isspace c \<Longrightarrow> c = 32"
  by (induction s rule: collapsed.induct) auto

lemma keep_char_32: "keep_char 32"
  by (simp add: keep_char_def isspace_32)

lemma keep_remove_special: "c \<in> set (remove_special s) \<Longrightarrow> keep_char c"
  by (auto simp: remove_special_def keep_char_32)

lemma normal_chars:
  assumes "c \<in> set (strip (collapse_ws (remove_special x)))"
  shows "keep_char c \<and> (isspace c \<longrightarrow> c = 32)"
proof -
  let ?o = "strip (collapse_ws (remove_special x))"
  have "collapsed ?o" by (rule collapsed_strip) (rule collapsed_collapse_ws)
  then have a: "isspace c \<longrightarrow> c = 32" using assms collapsed_space by blast
  have "c \<in> set (collapse_ws (remove_special x))" using assms set_strip by blast
  then have "c = 32 \<or> c \<in> set (remove_special x)" using set_collapse_ws by blast
  then have "keep_char c" using keep_char_32 keep_remove_special by blast
  with a show ?thesis by simp
qed

lemma accented_range: "c \<in> set accented \<Longrightarrow> 224 \<le> c \<and> c \<le> 252"
  by (auto simp: accented_def)

lemma keep_cases:
  assumes "keep_char c" and "isspace c \<longrightarrow> c = 32"
  shows "(97 \<le> c \<and> c \<le> 122) \<or> (224 \<le> c \<and> c \<le> 252) \<or> c = 32 \<or> c = 95"
  using assms accented_range[of c] unfolding keep_char_def by blast

lemma lower_latin1_fixed:
  assumes "keep_char c" and "isspace c \<longrightarrow> c = 32"
  shows "c < 256 \<and> lower_latin1 c = c"
  using keep_cases[OF assms] unfolding lower_latin1_def by auto

lemma lower_fixed:
  assumes "\<And>c. c \<in> set s \<Longrightarrow> keep_char c \<and> (isspace c \<longrightarrow> c = 32)"
  shows "lower E s = s"
proof -
  have a: "\<And>c. c \<in> set s \<Longrightarrow> c < 256 \<and> lower_latin1 c = c"
    using assms lower_latin1_fixed by blast
  then have "list_all (\<lambda>c. c < 256) s" by (simp add: list_all_iff)
  moreover have "map lower_latin1 s = s" using a by (simp add: map_idI)
  ultimately show ?thesis by (simp add: lower_def)
qed

lemma remove_special_fixed:
  assumes "\<And>c. c \<in> set s \<Longrightarrow> keep_char c"
  shows "remove_special s = s"
  using assms by (simp add: remove_special_def map_idI)

lemma normal_form_fixed:
  "s = strip (collapse_ws (remove_special x)) \<Longrightarrow>
   lower E s = s \<and> remove_special s = s \<and> collapse_ws s = s \<and> strip s = s"
proof -
  assume s: "s = strip (collapse_ws (remove_special x))"
  have ch: "\<And>c. c \<in> set s \<Longrightarrow> keep_char c \<and> (isspace c \<longrightarrow> c = 32)"
    unfolding s by (rule normal_chars)
  have "collapsed s" unfolding s by (rule collapsed_strip) (rule collapsed_collapse_ws)
  then have "collapse_ws s = s" by (rule collapse_ws_collapsed)
  moreover have "strip s = s" unfolding s by (rule strip_strip)
  moreover have "lower E s = s" using ch by (rule lower_fixed)
  moreover have "remove_special s = s" using ch by (simp add: remove_special_fixed)
  ultimately show ?thesis by simp
qed


lemma clean_text_example:
  "clean_text plain_env (str ''O  Que!'') = Inr (str ''o que'')"
  by (simp add: eval_simps)

text \<open>
  Claim C8. Lowercasing, replacing the special characters, collapsing the whitespace
  and stripping, applied again to a text that \<open>clean_text\<close> returned, give that text
  back: it holds only kept characters, its only whitespace is single spaces between
  tokens, and \<open>str.lower\<close> leaves every kept character as it is. The replacement of
  compounds is not among these steps, and is not idempotent: see
  \<open>folding_not_idempotent\<close>.
\<close>

theorem clean_text_steps_idempotent:
  "clean_text E text = Inr s \<Longrightarrow> strip (collapse_ws (remove_special (lower E s))) = s"
proof -
  assume "clean_text E text = Inr s"
  then obtain u where "s = strip (collapse_ws (remove_special
      (fold (\<lambda>(p, q). str_replace p q) compound_pairs (lower E (lower E u)))))"
    by (auto simp: clean_text_eq split: sum.splits)
  then have "lower E s = s \<and> remove_special s = s \<and> collapse_ws s = s \<and> strip s = s"
    by (rule normal_form_fixed)
  then show ?thesis by simp
qed
theorem clean_text_steps_idempotent_witness:
  "clean_text plain_env (str ''O  Que!'') = Inr (str ''o que'') \<and>
   strip (collapse_ws (remove_special (lower plain_env (str ''o que'')))) = str ''o que''"
  using clean_text_steps_idempotent [OF clean_text_example] clean_text_example by simp

text \<open>
  With the replacement of compounds included the steps are not idempotent: the
  normalised text of \<open>O  Que!\<close> is \<open>o que\<close>, which a second run folds into \<open>o_que\<close>.
\<close>

lemma folding_not_idempotent:
  "clean_text plain_env (str ''o que'') = Inr (str ''o_que'')"
  by (simp add: eval_simps)

section \<open>The normaliser is total\<close>

lemma str_replace_absent: "old \<noteq> [] \<Longrightarrow> hd old \<notin> set s \<Longrightarrow> str_replace old new s = s"
proof (induction s)
  case Nil then show ?case by simp
next
  case (Cons c cs)
  then obtain a old' where o: "old = a # old'" by (cases old) auto
  then have "a \<noteq> c" using Cons.prems by auto
  then have "\<not> prefix old (c # cs)" using o by simp
  then show ?case using Cons by simp
qed

lemma fold_replace_absent:
  "list_all (\<lambda>(p, q). p \<noteq> [] \<and> hd p \<notin> set s) ps \<Longrightarrow>
   fold (\<lambda>(p, q). str_replace p q) ps s = s"
  by (induction ps) (auto simp: str_replace_absent)

lemma compound_heads: "list_all (\<lambda>(p, q). p \<noteq> [] \<and> token_char (hd p)) compound_pairs"
  by (simp add: compound_pairs_eq str_def token_char_def keep_char_def accented_def isspace_def)

lemma all_space_strip: "list_all isspace s \<Longrightarrow> strip s = []"
proof -
  assume "list_all isspace s"
  then have "dropWhile isspace s = []" by (simp add: list_all_iff)
  then show ?thesis by (simp only: strip_def rev.simps dropWhile.simps)
qed

lemma all_space_collapse: "list_all isspace s \<Longrightarrow> list_all isspace (collapse_ws s)"
  using set_collapse_ws[of s] isspace_32 by (auto simp: list_all_iff)

lemma no_token_all_space:
  "list_all (\<lambda>c. \<not> token_char c) s \<Longrightarrow> list_all isspace (remove_special s)"
  by (induction s) (auto simp: remove_special_def token_char_def isspace_32)

lemma clean_text_no_token:
  assumes "unescape E text = Inr u"
    and "list_all (\<lambda>c. \<not> token_char c) (lower E (lower E u))"
  shows "clean_text E text = Inr []"
proof -
  let ?x = "lower E (lower E u)"
  have "list_all (\<lambda>(p, q). p \<noteq> [] \<and> hd p \<notin> set ?x) compound_pairs"
    using compound_heads assms(2) by (auto simp: list_all_iff)
  then have "fold (\<lambda>(p, q). str_replace p q) compound_pairs ?x = ?x"
    by (rule fold_replace_absent)
  moreover have "strip (collapse_ws (remove_special ?x)) = []"
    using assms(2) by (intro all_space_strip all_space_collapse no_token_all_space)
  ultimately show ?thesis using assms(1) by (simp add: clean_text_eq)
qed

lemma long_reference_ampersand: "long_reference n s \<Longrightarrow> 38 \<in> set s"
  by (induction s) auto

lemma takeWhile_replicate_append:
  "P x \<Longrightarrow> \<not> P y \<Longrightarrow> takeWhile P (replicate n x @ y # ys) = replicate n x"
  by (induction n) auto

lemma long_reference_replicate:
  "m < n \<Longrightarrow> long_reference m (38 # 35 # replicate n 49 @ [59])"
  by (simp add: takeWhile_replicate_append digit_def)

lemma unescape_raises:
  "unescape E text = Inl e \<longleftrightarrow>
   e = ValueError \<and> 0 < max_str_digits E \<and> long_reference (max (max_str_digits E) 640) text"
  using long_reference_ampersand[of "max (max_str_digits E) 640" "text"]
  by (auto simp: unescape_def)

text \<open>
  Claim C9. \<open>clean_text\<close> returns a string for every input but those on which
  \<open>html.unescape\<close> raises: a text that holds a decimal character reference, an ampersand
  and \<open>#\<close> followed by digits, of more digits than the interpreter converts to an
  integer (4300 unless the limit is changed or switched off) raises \<open>ValueError\<close>. No
  other operation raises: the subscript \<open>PORTUGUESE_COMPOUNDS[compound]\<close> of the
  replacement loop is only applied to keys of the table. The result is the empty string
  whenever the text that enters the loop (unescaped and lowercased) holds no letter of
  the kept alphabet and no underscore.
\<close>

theorem clean_text_returns:
  "(if 0 < max_str_digits E \<and> long_reference (max (max_str_digits E) 640) text
    then clean_text E text = Inl ValueError
    else (\<exists>s. clean_text E text = Inr s)) \<and>
   (\<forall>u. unescape E text = Inr u \<and> list_all (\<lambda>c. \<not> token_char c) (lower E (lower E u)) \<longrightarrow>
      clean_text E text = Inr [])"
proof -
  have "clean_text E text = Inl ValueError"
    if "0 < max_str_digits E \<and> long_reference (max (max_str_digits E) 640) text"
  proof -
    have "unescape E text = Inl ValueError" using that by (simp add: unescape_raises)
    then show ?thesis by (simp add: clean_text_eq)
  qed
  moreover have "\<exists>s. clean_text E text = Inr s"
    if "\<not> (0 < max_str_digits E \<and> long_reference (max (max_str_digits E) 640) text)"
  proof -
    have "\<exists>u. unescape E text = Inr u" using that by (auto simp: unescape_def)
    then show ?thesis by (auto simp: clean_text_eq)
  qed
  ultimately show ?thesis using clean_text_no_token by auto
qed

theorem clean_text_returns_witness:
  "\<not> long_reference 4300 (str ''12 !?'') \<and>
   unescape plain_env (str ''12 !?'') = Inr (str ''12 !?'') \<and>
   list_all (\<lambda>c. \<not> token_char c) (lower plain_env (lower plain_env (str ''12 !?''))) \<and>
   (\<exists>s. clean_text plain_env (str ''12 !?'') = Inr s) \<and>
   clean_text plain_env (str ''12 !?'') = Inr []"
proof -
  have a: "\<not> long_reference 4300 (str ''12 !?'')"
    by (simp add: str_def)
  have b: "unescape plain_env (str ''12 !?'') = Inr (str ''12 !?'')"
    by (simp add: str_def unescape_def)
  have c: "list_all (\<lambda>c. \<not> token_char c) (lower plain_env (lower plain_env (str ''12 !?'')))"
    by (simp add: str_def lower_def lower_latin1_def token_char_def keep_char_def accented_def
        isspace_def)
  have d: "max_str_digits plain_env = 4300"
    by (simp add: plain_env_def scenario_env_def)
  show ?thesis using clean_text_returns [of plain_env "str ''12 !?''"] a b c d by simp
qed

text \<open>
  A decimal character reference of 4301 digits: \<open>html.unescape\<close> raises \<open>ValueError\<close>, and
  \<open>clean_text\<close> has no handler.
\<close>

theorem clean_text_raises:
  "clean_text plain_env (str ''&#'' @ replicate 4301 49 @ str '';'') = Inl ValueError"
proof -
  have "long_reference 4300 (38 # 35 # replicate 4301 49 @ [59])"
    by (rule long_reference_replicate) simp
  then have "unescape plain_env (38 # 35 # replicate 4301 49 @ [59]) = Inl ValueError"
    by (simp add: unescape_raises plain_env_def scenario_env_def)
  then show ?thesis by (simp add: clean_text_eq str_def)
qed
section \<open>The order of the exported rows\<close>








section \<open>A container that cannot be read\<close>

lemma export_nothing:
  "export_to_csv E [] min_frequency sort_by =
     Inr [(path_join (output_dir E) (str ''combined_analysis.csv''),
           [[S (str ''Word''), S (str ''Total'')]])]"
  by (simp add: export_to_csv_def combined_file_def sort_all_words_def)

lemma analyze_epub_unreadable: "read_epub E epub_path = Inl e \<Longrightarrow> analyze_epub E epub_path = []"
  by (simp add: analyze_epub_def)

text \<open>
  Claim C3, as the code has it. When \<open>epub.read_epub\<close> raises, \<open>analyze_epub\<close> returns
  the empty list and nothing is raised to the caller; the script then exports that
  empty list, which writes no chapter file and one combined file holding only the
  header row \<open>Word,Total\<close>.
\<close>

theorem unreadable_container:
  "read_epub E epub_path = Inl e \<Longrightarrow>
   analyze_epub E epub_path = [] \<and>
   main E epub_path =
     Inr [(path_join (output_dir E) (str ''combined_analysis.csv''),
           [[S (str ''Word''), S (str ''Total'')]])]"
  by (simp add: analyze_epub_unreadable main_def print_chapter_analysis_def export_nothing)

lemma plain_env_unreadable: "read_epub plain_env [] = Inl EpubException"
  by (simp add: plain_env_def scenario_env_def)

theorem unreadable_container_witness:
  "read_epub plain_env [] = Inl EpubException \<and>
   analyze_epub plain_env [] = [] \<and>
   main plain_env [] =
     Inr [(path_join (output_dir plain_env) (str ''combined_analysis.csv''),
           [[S (str ''Word''), S (str ''Total'')]])]"
  using unreadable_container [OF plain_env_unreadable] plain_env_unreadable by simp

text \<open>
  The claim as stated, that no file is written, fails for every unreadable container:
  here the run writes \<open>combined_analysis.csv\<close>.
\<close>

theorem unreadable_container_writes_a_file:
  "read_epub plain_env [] = Inl EpubException \<and>
   main plain_env [] =
     Inr [(str ''word_frequency_analysis_20240101_120000/combined_analysis.csv'',
           [[S (str ''Word''), S (str ''Total'')]])]"
proof -
  have "analyze_epub plain_env [] = []"
    using plain_env_unreadable by (rule analyze_epub_unreadable)
  then have "main plain_env [] =
     Inr [(path_join (output_dir plain_env) (str ''combined_analysis.csv''),
           [[S (str ''Word''), S (str ''Total'')]])]"
    by (simp add: main_def print_chapter_analysis_def export_nothing)
  moreover have "path_join (output_dir plain_env) (str ''combined_analysis.csv'')
      = str ''word_frequency_analysis_20240101_120000/combined_analysis.csv''"
    by (simp add: path_join_def output_dir_def plain_env_def scenario_env_def str_def)
  ultimately show ?thesis using plain_env_unreadable by simp
qed

section \<open>The combined file\<close>

lemma dict_lookup_append:
  "dict_lookup (xs @ ys) k = (case dict_lookup xs k of Some v \<Rightarrow> Some v | None \<Rightarrow> dict_lookup ys k)"
  by (induction xs k rule: dict_lookup.induct) auto

lemma dict_lookup_dict_set:
  "dict_lookup (dict_set d k v) k' = (if k' = k then Some v else dict_lookup d k')"
  by (induction d k v rule: dict_set.induct) auto

lemma dict_lookup_rev_last:
  assumes "j < length xs" and "\<forall>i. j < i \<and> i < length xs \<longrightarrow> fst (xs ! i) \<noteq> fst (xs ! j)"
  shows "dict_lookup (rev xs) (fst (xs ! j)) = Some (snd (xs ! j))"
  using assms
proof (induction xs rule: rev_induct)
  case Nil then show ?case by simp
next
  case (snoc x xs)
  show ?case
  proof (cases "j = length xs")
    case True
    then show ?thesis by (cases x) simp
  next
    case False
    then have j: "j < length xs" using snoc.prems(1) by simp
    have "j < length xs \<and> length xs < length (xs @ [x])
        \<longrightarrow> fst ((xs @ [x]) ! length xs) \<noteq> fst ((xs @ [x]) ! j)"
      using snoc.prems(2) by blast
    then have ne: "fst x \<noteq> fst (xs ! j)" using j by (simp add: nth_append)
    have "\<forall>i. j < i \<and> i < length xs \<longrightarrow> fst (xs ! i) \<noteq> fst (xs ! j)"
    proof (intro allI impI)
      fix i assume i: "j < i \<and> i < length xs"
      then have "j < i \<and> i < length (xs @ [x])" by simp
      then have "fst ((xs @ [x]) ! i) \<noteq> fst ((xs @ [x]) ! j)" using snoc.prems(2) by blast
      then show "fst (xs ! i) \<noteq> fst (xs ! j)" using i j by (simp add: nth_append)
    qed
    then have "dict_lookup (rev xs) (fst (xs ! j)) = Some (snd (xs ! j))"
      using snoc.IH j by blast
    then show ?thesis using ne j by (cases x) (simp add: nth_append)
  qed
qed

lemma first_pass_lookup:
  "dict_lookup (snd (first_pass m cs (aw, cwc))) t =
     (case dict_lookup (rev cs) t of
        Some fr \<Rightarrow> Some (filtered_frequencies m fr)
      | None \<Rightarrow> dict_lookup cwc t)"
proof (induction cs arbitrary: aw cwc)
  case Nil then show ?case by simp
next
  case (Cons c cs)
  obtain t' fr' where c: "c = (t', fr')" by (cases c)
  show ?case unfolding c
    by (simp add: Cons.IH Let_def dict_lookup_append dict_lookup_dict_set split: option.splits)
qed

lemma rev_lookup_member:
  "c \<in> set cs \<Longrightarrow> \<exists>fr. dict_lookup (rev cs) (fst c) = Some fr"
proof (induction cs rule: rev_induct)
  case Nil then show ?case by simp
next
  case (snoc x xs)
  then show ?case by (cases x) (auto simp: dict_lookup_append split: option.splits)
qed

lemma row_loop_eq:
  assumes "\<And>c. c \<in> set rest \<Longrightarrow>
     \<exists>counts. dict_lookup cwc (fst c) = Some counts \<and> dict_get counts word 0 = f (fst c)"
  shows "row_loop cwc rest word row tot =
     Inr (row @ map (\<lambda>c. N (f (fst c))) rest @ [N (tot + sum_list (map (\<lambda>c. f (fst c)) rest))])"
  using assms
proof (induction rest arbitrary: row tot)
  case Nil then show ?case by simp
next
  case (Cons c rest)
  obtain t fr where c: "c = (t, fr)" by (cases c)
  obtain counts where l: "dict_lookup cwc t = Some counts" and g: "dict_get counts word 0 = f t"
    using Cons.prems[of c] c by auto
  have "row_loop cwc rest word (row @ [N (f t)]) (tot + f t) =
     Inr ((row @ [N (f t)]) @ map (\<lambda>c. N (f (fst c))) rest
          @ [N ((tot + f t) + sum_list (map (\<lambda>c. f (fst c)) rest))])"
    using Cons.prems by (intro Cons.IH) auto
  then show ?case unfolding c using l g by (simp add: subscript_def Let_def add.assoc)
qed

lemma row_loop_combined:
  "row_loop (snd (first_pass m cs ([], []))) cs word [S word] 0 = Inr (combined_row m cs word)"
proof -
  have "\<And>c. c \<in> set cs \<Longrightarrow>
     \<exists>counts. dict_lookup (snd (first_pass m cs ([], []))) (fst c) = Some counts
        \<and> dict_get counts word 0 = column_count m cs (fst c) word"
  proof -
    fix c assume "c \<in> set cs"
    then obtain fr where "dict_lookup (rev cs) (fst c) = Some fr"
      using rev_lookup_member by blast
    then show "\<exists>counts. dict_lookup (snd (first_pass m cs ([], []))) (fst c) = Some counts
        \<and> dict_get counts word 0 = column_count m cs (fst c) word"
      by (simp add: first_pass_lookup column_count_def)
  qed
  then have "row_loop (snd (first_pass m cs ([], []))) cs word [S word] 0 =
     Inr ([S word] @ map (\<lambda>c. N (column_count m cs (fst c) word)) cs
       @ [N (0 + sum_list (map (\<lambda>c. column_count m cs (fst c) word) cs))])"
    by (rule row_loop_eq)
  then show ?thesis by (simp add: combined_row_def)
qed

lemma rows_loop_combined:
  "rows_loop (snd (first_pass m cs ([], []))) cs words = Inr (map (combined_row m cs) words)"
  by (induction words) (simp_all add: row_loop_combined)

lemma combined_file_eq:
  "combined_file E m sb cs =
     Inr (combined_path E, combined_header cs #
       map (combined_row m cs)
         (sort_all_words sb (snd (first_pass m cs ([], []))) (fst (first_pass m cs ([], [])))))"
  by (simp add: combined_file_def Let_def case_prod_beta rows_loop_combined combined_path_def
      combined_header_def)

lemma export_to_csv_eq:
  "export_to_csv E cs m sb =
     Inr (map (chapter_file E m sb) cs @
       [(combined_path E, combined_header cs #
          map (combined_row m cs)
            (sort_all_words sb (snd (first_pass m cs ([], []))) (fst (first_pass m cs ([], [])))))])"
  by (simp add: export_to_csv_def combined_file_eq)

section \<open>The totals of the combined file\<close>

lemma set_set_update: "set (set_update s xs) = set s \<union> set xs"
  unfolding set_update_def by (induction xs arbitrary: s) auto

lemma first_pass_words:
  "set (fst (first_pass m cs (aw, cwc))) =
     set aw \<union> (\<Union>c\<in>set cs. set (dict_keys (filtered_frequencies m (snd c))))"
proof (induction cs arbitrary: aw cwc)
  case Nil then show ?case by simp
next
  case (Cons c cs)
  obtain t fr where c: "c = (t, fr)" by (cases c)
  show ?case unfolding c by (simp add: Cons.IH Let_def set_set_update Un_assoc)
qed

lemma set_sort_all_words: "set (sort_all_words sb cwc aw) = set aw"
  by (simp add: sort_all_words_def)

lemma distinct_lookup_rev:
  "distinct (map fst cs) \<Longrightarrow> c \<in> set cs \<Longrightarrow> dict_lookup (rev cs) (fst c) = Some (snd c)"
proof (induction cs rule: rev_induct)
  case Nil then show ?case by simp
next
  case (snoc x xs)
  obtain t fr where x: "x = (t, fr)" by (cases x)
  show ?case
  proof (cases "c = x")
    case True then show ?thesis using x by simp
  next
    case False
    then have m: "c \<in> set xs" using snoc.prems(2) by simp
    then have "fst c \<noteq> t" using snoc.prems(1) x by force
    moreover have "dict_lookup (rev xs) (fst c) = Some (snd c)"
      using snoc.IH snoc.prems(1) m by simp
    ultimately show ?thesis using x by simp
  qed
qed

lemma column_count_distinct:
  "distinct (map fst cs) \<Longrightarrow> c \<in> set cs \<Longrightarrow>
   column_count m cs (fst c) w = dict_get (filtered_frequencies m (snd c)) w 0"
  by (simp add: column_count_def distinct_lookup_rev)

lemma column_count_last:
  assumes "j < length cs" and "\<forall>k. j < k \<and> k < length cs \<longrightarrow> fst (cs ! k) \<noteq> fst (cs ! j)"
  shows "column_count m cs (fst (cs ! j)) w = dict_get (filtered_frequencies m (snd (cs ! j))) w 0"
  using dict_lookup_rev_last [OF assms] by (simp add: column_count_def)

lemma combined_row_shape:
  "hd (combined_row m cs w) = S w \<and> length (combined_row m cs w) = length cs + 2
   \<and> last (combined_row m cs w) = N (sum_list (map (\<lambda>c. column_count m cs (fst c) w) cs))"
  by (simp add: combined_row_def)

lemma combined_row_cell:
  "i < length cs \<Longrightarrow> combined_row m cs w ! Suc i = N (column_count m cs (fst (cs ! i)) w)"
  by (simp add: combined_row_def nth_append)

lemma two_chapters_combined:
  "combined_file plain_env 1 (str ''frequency'') two_chapters =
     Inr (combined_path plain_env,
          [combined_header two_chapters,
           [S (str ''x''), N 1, N 2, N 3],
           [S (str ''y''), N 1, N 0, N 1]])"
  by (simp add: combined_file_eq two_chapters_def combined_row_def column_count_def
      filtered_frequencies_def dict_get_def sort_all_words_def total_frequencies_def
      counter_update_def dict_values_def dict_keys_def set_update_def str_def)

text \<open>
  Claim C4, as the code has it. The combined file is written without a \<open>KeyError\<close>;
  its rows are those of the words of the filtered tables; in the row of a word the
  cell of a chapter is the filtered count of the word in the last chapter of the list
  that has the same title, and the total is the sum of these cells. When no two
  chapters share a title, the total is the sum of the word's filtered counts over the
  chapters.
\<close>

theorem combined_total:
  "\<exists>rows. combined_file E m sb cs = Inr (combined_path E, combined_header cs # rows) \<and>
     (\<forall>row \<in> set rows. \<exists>w.
        hd row = S w \<and> length row = length cs + 2
        \<and> w \<in> (\<Union>c\<in>set cs. set (dict_keys (filtered_frequencies m (snd c))))
        \<and> (\<forall>i. i < length cs \<longrightarrow> row ! Suc i = N (column_count m cs (fst (cs ! i)) w))
        \<and> last row = N (sum_list (map (\<lambda>c. column_count m cs (fst c) w) cs))
        \<and> (distinct (map fst cs) \<longrightarrow>
             last row = N (sum_list (map (\<lambda>c. dict_get (filtered_frequencies m (snd c)) w 0) cs))))"
proof -
  let ?words = "sort_all_words sb (snd (first_pass m cs ([], []))) (fst (first_pass m cs ([], [])))"
  let ?rows = "map (combined_row m cs) ?words"
  have f: "combined_file E m sb cs = Inr (combined_path E, combined_header cs # ?rows)"
    by (rule combined_file_eq)
  have v: "set ?words = (\<Union>c\<in>set cs. set (dict_keys (filtered_frequencies m (snd c))))"
    by (simp add: set_sort_all_words first_pass_words)
  have "\<forall>row \<in> set ?rows. \<exists>w.
        hd row = S w \<and> length row = length cs + 2
        \<and> w \<in> (\<Union>c\<in>set cs. set (dict_keys (filtered_frequencies m (snd c))))
        \<and> (\<forall>i. i < length cs \<longrightarrow> row ! Suc i = N (column_count m cs (fst (cs ! i)) w))
        \<and> last row = N (sum_list (map (\<lambda>c. column_count m cs (fst c) w) cs))
        \<and> (distinct (map fst cs) \<longrightarrow>
             last row = N (sum_list (map (\<lambda>c. dict_get (filtered_frequencies m (snd c)) w 0) cs)))"
  proof
    fix row assume "row \<in> set ?rows"
    then obtain w where w: "w \<in> set ?words" and r: "row = combined_row m cs w" by auto
    have d: "distinct (map fst cs) \<longrightarrow>
        sum_list (map (\<lambda>c. column_count m cs (fst c) w) cs)
        = sum_list (map (\<lambda>c. dict_get (filtered_frequencies m (snd c)) w 0) cs)"
    proof
      assume "distinct (map fst cs)"
      then have "map (\<lambda>c. column_count m cs (fst c) w) cs
          = map (\<lambda>c. dict_get (filtered_frequencies m (snd c)) w 0) cs"
        by (simp add: column_count_distinct)
      then show "sum_list (map (\<lambda>c. column_count m cs (fst c) w) cs)
        = sum_list (map (\<lambda>c. dict_get (filtered_frequencies m (snd c)) w 0) cs)"
        by (rule arg_cong [where f = sum_list])
    qed
    have "hd row = S w \<and> length row = length cs + 2
        \<and> w \<in> (\<Union>c\<in>set cs. set (dict_keys (filtered_frequencies m (snd c))))
        \<and> (\<forall>i. i < length cs \<longrightarrow> row ! Suc i = N (column_count m cs (fst (cs ! i)) w))
        \<and> last row = N (sum_list (map (\<lambda>c. column_count m cs (fst c) w) cs))
        \<and> (distinct (map fst cs) \<longrightarrow>
             last row = N (sum_list (map (\<lambda>c. dict_get (filtered_frequencies m (snd c)) w 0) cs)))"
      unfolding r using w v d combined_row_shape[of m cs w] combined_row_cell[of _ cs m w]
      by auto
    then show "\<exists>w. hd row = S w \<and> length row = length cs + 2
        \<and> w \<in> (\<Union>c\<in>set cs. set (dict_keys (filtered_frequencies m (snd c))))
        \<and> (\<forall>i. i < length cs \<longrightarrow> row ! Suc i = N (column_count m cs (fst (cs ! i)) w))
        \<and> last row = N (sum_list (map (\<lambda>c. column_count m cs (fst c) w) cs))
        \<and> (distinct (map fst cs) \<longrightarrow>
             last row = N (sum_list (map (\<lambda>c. dict_get (filtered_frequencies m (snd c)) w 0) cs)))"
      by blast
  qed
  with f show ?thesis by blast
qed

theorem combined_total_witness:
  "combined_file plain_env 1 (str ''frequency'') two_chapters =
     Inr (combined_path plain_env,
          [combined_header two_chapters,
           [S (str ''x''), N 1, N 2, N 3],
           [S (str ''y''), N 1, N 0, N 1]])
   \<and> distinct (map fst two_chapters)
   \<and> last [S (str ''x''), N 1, N 2, N 3] =
       N (sum_list (map (\<lambda>c. dict_get (filtered_frequencies 1 (snd c)) (str ''x'') 0) two_chapters))"
proof -
  obtain rows where
    f: "combined_file plain_env 1 (str ''frequency'') two_chapters
          = Inr (combined_path plain_env, combined_header two_chapters # rows)"
    and r: "\<forall>row \<in> set rows. \<exists>w.
        hd row = S w \<and> length row = length two_chapters + 2
        \<and> w \<in> (\<Union>c\<in>set two_chapters. set (dict_keys (filtered_frequencies 1 (snd c))))
        \<and> (\<forall>i. i < length two_chapters \<longrightarrow>
              row ! Suc i = N (column_count 1 two_chapters (fst (two_chapters ! i)) w))
        \<and> last row = N (sum_list (map (\<lambda>c. column_count 1 two_chapters (fst c) w) two_chapters))
        \<and> (distinct (map fst two_chapters) \<longrightarrow>
             last row = N (sum_list (map (\<lambda>c. dict_get (filtered_frequencies 1 (snd c)) w 0) two_chapters)))"
    using combined_total [of plain_env 1 "str ''frequency''" two_chapters] by blast
  have d: "distinct (map fst two_chapters)" by (simp add: two_chapters_def str_def)
  have "rows = [[S (str ''x''), N 1, N 2, N 3], [S (str ''y''), N 1, N 0, N 1]]"
    using f two_chapters_combined by simp
  then have "[S (str ''x''), N 1, N 2, N 3] \<in> set rows" by simp
  then obtain w where "hd [S (str ''x''), N 1, N 2, N 3] = S w"
    and "last [S (str ''x''), N 1, N 2, N 3] =
       N (sum_list (map (\<lambda>c. dict_get (filtered_frequencies 1 (snd c)) w 0) two_chapters))"
    using r d by blast
  then have "last [S (str ''x''), N 1, N 2, N 3] =
       N (sum_list (map (\<lambda>c. dict_get (filtered_frequencies 1 (snd c)) (str ''x'') 0) two_chapters))"
    by simp
  with two_chapters_combined d show ?thesis by blast
qed

text \<open>
  The claim as stated, which includes lists where two chapters share a title, fails on
  two chapters titled \<open>A\<close> in which the word \<open>x\<close> occurs once and twice: the row of
  \<open>x\<close> reads 2, 2 and the total 4, while the filtered counts add up to 3.
\<close>

theorem same_title_total:
  "combined_file plain_env 1 (str ''frequency'') same_title =
     Inr (str ''word_frequency_analysis_20240101_120000/combined_analysis.csv'',
          [[S (str ''Word''), S (str ''A''), S (str ''A''), S (str ''Total'')],
           [S (str ''x''), N 2, N 2, N 4]])
   \<and> sum_list (map (\<lambda>c. dict_get (filtered_frequencies 1 (snd c)) (str ''x'') 0) same_title) = 3"
  by (simp add: combined_file_eq same_title_def combined_row_def column_count_def
      combined_header_def combined_path_def path_join_def output_dir_def plain_env_def
      scenario_env_def
      filtered_frequencies_def dict_get_def sort_all_words_def total_frequencies_def
      counter_update_def dict_values_def dict_keys_def set_update_def str_def)

section \<open>Chapters that share a title\<close>

lemma clean_title_no_slash: "47 \<notin> set (clean_title E t)"
  by (auto simp: clean_title_def word_char_def isspace_def)

lemma path_join_relative:
  "b \<noteq> [] \<Longrightarrow> hd b \<noteq> 47 \<Longrightarrow>
   path_join a b = (if a = [] \<or> last a = 47 then a else a @ [47]) @ b"
  by (simp add: path_join_def)

lemma chapter_name_relative:
  "clean_title E t @ str ''_frequencies.csv'' \<noteq> []
   \<and> hd (clean_title E t @ str ''_frequencies.csv'') \<noteq> 47"
proof (cases "clean_title E t")
  case Nil then show ?thesis by (simp add: str_def)
next
  case (Cons c cs)
  then have "c \<in> set (clean_title E t)" by simp
  then have "c \<noteq> 47" using clean_title_no_slash by metis
  then show ?thesis using Cons by simp
qed

lemma names_differ: "ct @ str ''_frequencies.csv'' \<noteq> str ''combined_analysis.csv''"
proof
  assume "ct @ str ''_frequencies.csv'' = str ''combined_analysis.csv''"
  then have "take 6 (rev (ct @ str ''_frequencies.csv'')) = take 6 (rev (str ''combined_analysis.csv''))"
    by simp
  then show False by (simp add: str_def)
qed

lemma combined_path_differs: "chapter_filename E t \<noteq> combined_path E"
proof -
  have a: "chapter_filename E t =
      (if output_dir E = [] \<or> last (output_dir E) = 47 then output_dir E else output_dir E @ [47])
        @ (clean_title E t @ str ''_frequencies.csv'')"
    unfolding chapter_filename_def
    using chapter_name_relative [of E t] by (intro path_join_relative) simp_all
  have b: "combined_path E =
      (if output_dir E = [] \<or> last (output_dir E) = 47 then output_dir E else output_dir E @ [47])
        @ str ''combined_analysis.csv''"
    unfolding combined_path_def by (rule path_join_relative) (simp_all add: str_def)
  show ?thesis unfolding a b using names_differ by simp
qed

lemma chapter_file_path: "fst (chapter_file E m sb c) = chapter_filename E (fst c)"
  by (cases c) (simp add: chapter_file_def)

lemma combined_header_cell: "i < length cs \<Longrightarrow> combined_header cs ! Suc i = S (fst (cs ! i))"
  by (simp add: combined_header_def nth_append)

lemma file_at_last_write:
  assumes "j < length cs"
    and "\<forall>k. j < k \<and> k < length cs \<longrightarrow>
           chapter_filename E (fst (cs ! k)) \<noteq> chapter_filename E (fst (cs ! j))"
  shows "file_at (map (chapter_file E m sb) cs @ [(combined_path E, content)])
           (fst (chapter_file E m sb (cs ! j))) = Some (snd (chapter_file E m sb (cs ! j)))"
proof -
  let ?xs = "map (chapter_file E m sb) cs"
  have j: "j < length ?xs" using assms(1) by simp
  have "\<forall>k. j < k \<and> k < length ?xs \<longrightarrow> fst (?xs ! k) \<noteq> fst (?xs ! j)"
    using assms by (simp add: chapter_file_path)
  then have "dict_lookup (rev ?xs) (fst (?xs ! j)) = Some (snd (?xs ! j))"
    using j by (intro dict_lookup_rev_last) simp_all
  then have l: "dict_lookup (rev ?xs) (fst (chapter_file E m sb (cs ! j)))
      = Some (snd (chapter_file E m sb (cs ! j)))"
    using assms(1) by simp
  have "combined_path E \<noteq> fst (chapter_file E m sb (cs ! j))"
    using combined_path_differs [of E "fst (cs ! j)"] by (simp add: chapter_file_path)
  then show ?thesis using l by (simp add: file_at_def)
qed

lemma same_title_export:
  "export_to_csv plain_env same_title 1 (str ''frequency'') =
     Inr [(str ''word_frequency_analysis_20240101_120000/A_frequencies.csv'',
           [[S (str ''Word''), S (str ''Frequency'')], [S (str ''x''), N 1]]),
          (str ''word_frequency_analysis_20240101_120000/A_frequencies.csv'',
           [[S (str ''Word''), S (str ''Frequency'')], [S (str ''x''), N 2]]),
          (str ''word_frequency_analysis_20240101_120000/combined_analysis.csv'',
           [[S (str ''Word''), S (str ''A''), S (str ''A''), S (str ''Total'')],
            [S (str ''x''), N 2, N 2, N 4]])]"
  by (simp add: export_to_csv_eq same_title_def combined_row_def column_count_def
      combined_header_def combined_path_def path_join_def output_dir_def plain_env_def
      scenario_env_def chapter_file_def chapter_filename_def clean_title_def word_char_def
      sorted_words_def isspace_def
      filtered_frequencies_def dict_get_def sort_all_words_def total_frequencies_def
      counter_update_def dict_values_def dict_keys_def set_update_def str_def)

text \<open>
  Claim C10. Let chapter \<open>j\<close> be the last chapter of the list with its title and let
  an earlier chapter \<open>i\<close> have the same title. The export succeeds; the files of both
  chapters are written to one path, the one of \<open>j\<close> after the one of \<open>i\<close>; in the
  combined file both columns are headed by the title and, in every row, both hold the
  filtered count of the row's word in chapter \<open>j\<close>; and the path holds the file of
  chapter \<open>j\<close> at the end of the run, unless a later chapter with another title has
  the same cleaned file name.
\<close>

theorem same_title_overwrites:
  assumes "i < j" and "j < length cs" and "fst (cs ! i) = fst (cs ! j)"
    and "\<forall>k. j < k \<and> k < length cs \<longrightarrow> fst (cs ! k) \<noteq> fst (cs ! j)"
  shows "\<exists>rows.
     export_to_csv E cs m sb =
       Inr (map (chapter_file E m sb) cs @ [(combined_path E, combined_header cs # rows)])
     \<and> fst (chapter_file E m sb (cs ! i)) = fst (chapter_file E m sb (cs ! j))
     \<and> combined_header cs ! Suc i = S (fst (cs ! j))
     \<and> combined_header cs ! Suc j = S (fst (cs ! j))
     \<and> (\<forall>row \<in> set rows. \<exists>w. hd row = S w
           \<and> row ! Suc i = N (dict_get (filtered_frequencies m (snd (cs ! j))) w 0)
           \<and> row ! Suc j = N (dict_get (filtered_frequencies m (snd (cs ! j))) w 0))
     \<and> ((\<forall>k. j < k \<and> k < length cs \<longrightarrow>
            chapter_filename E (fst (cs ! k)) \<noteq> chapter_filename E (fst (cs ! j))) \<longrightarrow>
         file_at (map (chapter_file E m sb) cs @ [(combined_path E, combined_header cs # rows)])
           (fst (chapter_file E m sb (cs ! j))) = Some (snd (chapter_file E m sb (cs ! j))))"
proof -
  let ?words = "sort_all_words sb (snd (first_pass m cs ([], []))) (fst (first_pass m cs ([], [])))"
  let ?rows = "map (combined_row m cs) ?words"
  have i: "i < length cs" using assms(1,2) by simp
  have e: "export_to_csv E cs m sb =
       Inr (map (chapter_file E m sb) cs @ [(combined_path E, combined_header cs # ?rows)])"
    by (rule export_to_csv_eq)
  have p: "fst (chapter_file E m sb (cs ! i)) = fst (chapter_file E m sb (cs ! j))"
    using assms(3) by (simp add: chapter_file_path)
  have h: "combined_header cs ! Suc i = S (fst (cs ! j)) \<and> combined_header cs ! Suc j = S (fst (cs ! j))"
    using i assms(2,3) by (simp add: combined_header_cell)
  have c: "\<And>w. column_count m cs (fst (cs ! j)) w
      = dict_get (filtered_frequencies m (snd (cs ! j))) w 0"
    using assms(2,4) by (rule column_count_last)
  have r: "\<forall>row \<in> set ?rows. \<exists>w. hd row = S w
           \<and> row ! Suc i = N (dict_get (filtered_frequencies m (snd (cs ! j))) w 0)
           \<and> row ! Suc j = N (dict_get (filtered_frequencies m (snd (cs ! j))) w 0)"
  proof
    fix row assume "row \<in> set ?rows"
    then obtain w where row: "row = combined_row m cs w" by auto
    have "hd row = S w" unfolding row by (simp add: combined_row_shape)
    moreover have "row ! Suc i = N (dict_get (filtered_frequencies m (snd (cs ! j))) w 0)"
      unfolding row using i assms(3) c by (simp add: combined_row_cell)
    moreover have "row ! Suc j = N (dict_get (filtered_frequencies m (snd (cs ! j))) w 0)"
      unfolding row using assms(2) c by (simp add: combined_row_cell)
    ultimately show "\<exists>w. hd row = S w
           \<and> row ! Suc i = N (dict_get (filtered_frequencies m (snd (cs ! j))) w 0)
           \<and> row ! Suc j = N (dict_get (filtered_frequencies m (snd (cs ! j))) w 0)"
      by blast
  qed
  have f: "(\<forall>k. j < k \<and> k < length cs \<longrightarrow>
            chapter_filename E (fst (cs ! k)) \<noteq> chapter_filename E (fst (cs ! j))) \<longrightarrow>
         file_at (map (chapter_file E m sb) cs @ [(combined_path E, combined_header cs # ?rows)])
           (fst (chapter_file E m sb (cs ! j))) = Some (snd (chapter_file E m sb (cs ! j)))"
    using assms(2) file_at_last_write by blast
  from e p h r f show ?thesis by blast
qed

theorem same_title_overwrites_witness:
  "(0::nat) < 1 \<and> 1 < length same_title \<and> fst (same_title ! 0) = fst (same_title ! 1)
   \<and> export_to_csv plain_env same_title 1 (str ''frequency'') =
     Inr [(str ''word_frequency_analysis_20240101_120000/A_frequencies.csv'',
           [[S (str ''Word''), S (str ''Frequency'')], [S (str ''x''), N 1]]),
          (str ''word_frequency_analysis_20240101_120000/A_frequencies.csv'',
           [[S (str ''Word''), S (str ''Frequency'')], [S (str ''x''), N 2]]),
          (str ''word_frequency_analysis_20240101_120000/combined_analysis.csv'',
           [[S (str ''Word''), S (str ''A''), S (str ''A''), S (str ''Total'')],
            [S (str ''x''), N 2, N 2, N 4]])]
   \<and> (\<exists>rows.
     export_to_csv plain_env same_title 1 (str ''frequency'') =
       Inr (map (chapter_file plain_env 1 (str ''frequency'')) same_title
            @ [(combined_path plain_env, combined_header same_title # rows)])
     \<and> file_at (map (chapter_file plain_env 1 (str ''frequency'')) same_title
            @ [(combined_path plain_env, combined_header same_title # rows)])
           (fst (chapter_file plain_env 1 (str ''frequency'') (same_title ! 1)))
         = Some (snd (chapter_file plain_env 1 (str ''frequency'') (same_title ! 1))))"
proof -
  have a: "(0::nat) < 1" by simp
  have b: "1 < length same_title" by (simp add: same_title_def)
  have c: "fst (same_title ! 0) = fst (same_title ! 1)" by (simp add: same_title_def)
  have d: "\<forall>k. 1 < k \<and> k < length same_title \<longrightarrow> fst (same_title ! k) \<noteq> fst (same_title ! 1)"
    by (simp add: same_title_def)
  have d': "\<forall>k. 1 < k \<and> k < length same_title \<longrightarrow>
      chapter_filename plain_env (fst (same_title ! k)) \<noteq> chapter_filename plain_env (fst (same_title ! 1))"
    by (simp add: same_title_def)
  show ?thesis
    using same_title_overwrites [OF a b c d, of plain_env 1 "str ''frequency''"] a b c d'
      same_title_export
    by blast
qed

section \<open>Replacing one occurrence, and the tokens around it\<close>

lemma str_replace_no_occurrence:
  "p \<noteq> [] \<Longrightarrow> \<not> sublist p s \<Longrightarrow> str_replace p q s = s"
proof (induction s)
  case Nil then show ?case by simp
next
  case (Cons c cs)
  have "\<not> prefix p (c # cs)" using Cons.prems(2) prefix_imp_sublist by blast
  moreover have "\<not> sublist p cs" using Cons.prems(2) by (simp add: sublist_Cons_right)
  ultimately show ?case using Cons by simp
qed

lemma str_replace_first_occurrence:
  "p \<noteq> [] \<Longrightarrow> \<not> sublist p (L @ butlast p) \<Longrightarrow>
   str_replace p q (L @ p @ R) = L @ q @ str_replace p q R"
proof (induction L)
  case Nil
  then obtain a p' where p: "p = a # p'" by (cases p) auto
  show ?case unfolding p by simp
next
  case (Cons c L)
  have "\<not> prefix p ((c # L) @ p @ R)"
  proof
    assume a: "prefix p ((c # L) @ p @ R)"
    have "(c # L) @ p @ R = ((c # L) @ butlast p) @ ([last p] @ R)"
      using Cons.prems(1) by simp
    then have "prefix ((c # L) @ butlast p) ((c # L) @ p @ R)" by (metis prefixI)
    moreover have "length p \<le> length ((c # L) @ butlast p)" by simp
    ultimately have "prefix p ((c # L) @ butlast p)" using a prefix_length_prefix by blast
    then show False using Cons.prems(2) prefix_imp_sublist by blast
  qed
  moreover have "\<not> sublist p (L @ butlast p)"
    using Cons.prems(2) by (simp add: sublist_Cons_right)
  ultimately show ?case using Cons by simp
qed

lemma fold_replace_no_occurrence:
  "list_all (\<lambda>k. k \<noteq> [] \<and> \<not> sublist k s) ks \<Longrightarrow>
   fold (\<lambda>(p, q). str_replace p q) (map (\<lambda>k. (k, f k)) ks) s = s"
  by (induction ks) (simp_all add: str_replace_no_occurrence)

lemma split_all_space: "list_all isspace s \<Longrightarrow> split s = []"
  by (induction s) simp_all

lemma split_token: "q \<noteq> [] \<Longrightarrow> list_all (\<lambda>c. \<not> isspace c) q \<Longrightarrow> split q = [q]"
proof (cases q)
  case Nil then show "q \<noteq> [] \<Longrightarrow> list_all (\<lambda>c. \<not> isspace c) q \<Longrightarrow> split q = [q]" by simp
next
  case (Cons c cs)
  assume "list_all (\<lambda>c. \<not> isspace c) q"
  then have c: "\<not> isspace c" and cs: "list_all (\<lambda>c. \<not> isspace c) cs" using Cons by simp_all
  have "takeWhile (\<lambda>x. \<not> isspace x) cs = cs" using cs by (simp add: list_all_iff)
  moreover have "dropWhile (\<lambda>x. \<not> isspace x) cs = []" using cs by (simp add: list_all_iff)
  ultimately show "split q = [q]" unfolding Cons using c by (simp del: dropWhile_eq_Nil_conv takeWhile_eq_all_conv)
qed

lemma split_Cons_token:
  "\<not> isspace c \<Longrightarrow>
   split (c # cs) =
     (if cs = [] \<or> isspace (hd cs) then [c] # split cs
      else (c # hd (split cs)) # tl (split cs))"
  by (cases cs) auto

lemma split_nonempty: "cs \<noteq> [] \<Longrightarrow> \<not> isspace (hd cs) \<Longrightarrow> split cs \<noteq> []"
  by (cases cs) auto

lemma split_append:
  "A = [] \<or> isspace (last A) \<or> B = [] \<or> isspace (hd B) \<Longrightarrow> split (A @ B) = split A @ split B"
proof (induction A)
  case Nil then show ?case by simp
next
  case (Cons c A)
  show ?case
  proof (cases "isspace c")
    case True
    have "A = [] \<or> isspace (last A) \<or> B = [] \<or> isspace (hd B)" using Cons.prems by auto
    then show ?thesis using True Cons.IH by simp
  next
    case False
    show ?thesis
    proof (cases A)
      case Nil
      then have "B = [] \<or> isspace (hd B)" using Cons.prems False by simp
      then show ?thesis using Nil False by (simp add: split_Cons_token del: split.simps(2))
    next
      case (Cons d A')
      then have "A = [] \<or> isspace (last A) \<or> B = [] \<or> isspace (hd B)" using Cons.prems by auto
      then have ih: "split (A @ B) = split A @ split B" by (rule Cons.IH)
      show ?thesis
      proof (cases "isspace d")
        case True
        then show ?thesis using False ih Cons by (simp add: split_Cons_token del: split.simps(2))
      next
        case d: False
        then have "split A \<noteq> []" using Cons split_nonempty[of A] by simp
        then show ?thesis using False ih Cons d
          by (simp add: split_Cons_token del: split.simps(2))
      qed
    qed
  qed
qed

lemma split_dropWhile_space: "split (dropWhile isspace cs) = split cs"
  by (induction cs) simp_all

lemma collapse_ws_Nil: "(collapse_ws cs = []) = (cs = [])"
  by (cases cs) simp_all

lemma hd_collapse_ws: "cs \<noteq> [] \<Longrightarrow> isspace (hd (collapse_ws cs)) = isspace (hd cs)"
  by (cases cs) (simp_all add: isspace_32)

lemma split_collapse_ws: "split (collapse_ws s) = split s"
proof (induction s rule: collapse_ws.induct)
  case 1 then show ?case by simp
next
  case (2 c cs)
  show ?case
  proof (cases "isspace c")
    case True
    then have "split (collapse_ws (dropWhile isspace cs)) = split (dropWhile isspace cs)"
      using 2 by simp
    then show ?thesis using True by (simp add: isspace_32 split_dropWhile_space)
  next
    case False
    then have ih: "split (collapse_ws cs) = split cs" using 2 by simp
    have "split (c # collapse_ws cs) = split (c # cs)"
      using False ih collapse_ws_Nil[of cs] hd_collapse_ws[of cs]
      by (auto simp add: split_Cons_token simp del: split.simps(2))
    then show ?thesis using False by simp
  qed
qed

lemma strip_decomp_space:
  "\<exists>pre post. s = pre @ strip s @ post \<and> list_all isspace pre \<and> list_all isspace post"
proof -
  let ?t = "dropWhile isspace s"
  have a: "s = takeWhile isspace s @ ?t" by simp
  have "rev (takeWhile isspace (rev ?t) @ dropWhile isspace (rev ?t)) = rev (rev ?t)"
    by (simp only: takeWhile_dropWhile_id)
  then have "rev (dropWhile isspace (rev ?t)) @ rev (takeWhile isspace (rev ?t)) = ?t"
    by (simp only: rev_append rev_rev_ident)
  then have b: "?t = strip s @ rev (takeWhile isspace (rev ?t))" by (simp only: strip_def)
  from a b have "s = takeWhile isspace s @ strip s @ rev (takeWhile isspace (rev ?t))" by simp
  moreover have "list_all isspace (takeWhile isspace s)"
    by (auto simp: list_all_iff dest: set_takeWhileD)
  moreover have "list_all isspace (rev (takeWhile isspace (rev ?t)))"
    by (auto simp: list_all_iff dest: set_takeWhileD)
  ultimately show ?thesis by blast
qed

lemma split_strip: "split (strip s) = split s"
proof -
  obtain pre post where s: "s = pre @ strip s @ post"
    and pre: "list_all isspace pre" and post: "list_all isspace post"
    using strip_decomp_space by blast
  have a: "pre = [] \<or> isspace (last pre)" using pre by (cases pre rule: rev_cases) simp_all
  have b: "post = [] \<or> isspace (hd post)" using post by (cases post) simp_all
  have "split s = split (pre @ (strip s @ post))" using s by simp
  also have "\<dots> = split pre @ split (strip s @ post)" using a by (intro split_append) blast
  also have "\<dots> = split pre @ split (strip s) @ split post" using b by (simp add: split_append)
  also have "\<dots> = split (strip s)" using pre post by (simp add: split_all_space)
  finally show ?thesis by simp
qed

lemma token_char_kept: "list_all token_char q \<Longrightarrow> remove_special q = q"
  by (induction q) (simp_all add: remove_special_def token_char_def)

lemma remove_special_boundary_last:
  "L = [] \<or> \<not> token_char (last L) \<Longrightarrow> remove_special L = [] \<or> isspace (last (remove_special L))"
  by (cases L rule: rev_cases) (auto simp: remove_special_def token_char_def isspace_32)

lemma remove_special_boundary_hd:
  "R = [] \<or> \<not> token_char (hd R) \<Longrightarrow> remove_special R = [] \<or> isspace (hd (remove_special R))"
  by (cases R) (auto simp: remove_special_def token_char_def isspace_32)

lemma tokens_around_placeholder:
  assumes "q \<noteq> []" and "list_all token_char q"
    and "L = [] \<or> \<not> token_char (last L)" and "R = [] \<or> \<not> token_char (hd R)"
  shows "split (strip (collapse_ws (remove_special (L @ q @ R)))) =
     split (remove_special L) @ [q] @ split (remove_special R)"
proof -
  have ns: "list_all (\<lambda>c. \<not> isspace c) q"
    using assms(2) by (simp add: list_all_iff token_char_def)
  have r: "remove_special (L @ q @ R) = remove_special L @ q @ remove_special R"
    using token_char_kept [OF assms(2)] by (simp add: remove_special_def)
  have a: "remove_special L = [] \<or> isspace (last (remove_special L))"
    using assms(3) by (rule remove_special_boundary_last)
  have b: "remove_special R = [] \<or> isspace (hd (remove_special R))"
    using assms(4) by (rule remove_special_boundary_hd)
  have "split (remove_special L @ (q @ remove_special R)) =
      split (remove_special L) @ split (q @ remove_special R)"
    using a by (intro split_append) blast
  moreover have "split (q @ remove_special R) = split q @ split (remove_special R)"
    using b by (intro split_append) blast
  moreover have "split q = [q]" using assms(1) ns by (rule split_token)
  ultimately show ?thesis by (simp add: split_strip split_collapse_ws r)
qed

end
